theory Spec2Isabelle
  imports Complex_Main
begin

section \<open>Data model of ARPlanes.js\<close>

text \<open>
  The device reports a plane as an object with an identifier, a flat array of vertex
  coordinates and a 16-element model matrix. The code does no arithmetic on the
  coordinates or on the matrix entries: it only copies them, so they are modelled as
  real numbers. A JavaScript array read outside the array gives \<open>undefined\<close>, which is
  \<open>None\<close> here.
\<close>

type_synonym ident = string
type_synonym num = real
type_synonym color = nat

record plane =
  "identifier" :: ident
  vertices :: "num list"
  modelMatrix :: "num list"

definition js_get :: "'a list \<Rightarrow> nat \<Rightarrow> 'a option" where
  "js_get xs i = (if i < length xs then Some (xs ! i) else None)"

text \<open>
  A \<open>Vector3\<close> of the rendering library holds three numbers; its constructor stores 0
  for an argument that is \<open>undefined\<close>.
\<close>

datatype vector3 = Vector3 num num num

definition Vector3_new :: "num option \<Rightarrow> num option \<Rightarrow> num option \<Rightarrow> vector3" where
  "Vector3_new x y z =
     Vector3 (case x of Some v \<Rightarrow> v | None \<Rightarrow> 0)
             (case y of Some v \<Rightarrow> v | None \<Rightarrow> 0)
             (case z of Some v \<Rightarrow> v | None \<Rightarrow> 0)"

datatype face3 = Face3 nat nat nat

record geometry =
  geo_vertices :: "vector3 list"
  geo_faces :: "face3 list"

text \<open>
  A material is a clone of \<open>DEFAULT_MATERIAL\<close>; the clones differ in the background
  colour only. \<open>mat_id\<close> tells the clones apart: it is the number of clones made before.
\<close>

record material =
  mat_id :: nat
  backgroundColor :: color

record mesh =
  mesh_geometry :: geometry
  mesh_material :: material

text \<open>
  The node built for one plane. \<open>obj_id\<close> is the identity of the JavaScript object:
  \<open>Object3D.remove\<close> looks its argument up with \<open>indexOf\<close>, which compares
  references. \<open>matrix\<close> holds the sixteen elements in the scene graph's storage order
  (column-major).
\<close>

record object3d =
  obj_id :: nat
  matrixAutoUpdate :: bool
  matrix :: "num option list"
  obj_children :: "mesh list"

text \<open>
  The state of an \<open>ARPlanes\<close> instance: the two maps of the constructor, the children
  of the instance itself (it extends \<open>Object3D\<close>), the number of plane nodes created
  so far and the number of calls of \<open>getRandomPaletteColor\<close> so far.
\<close>

record arplanes =
  planes :: "ident \<rightharpoonup> object3d"
  materialMap :: "ident \<rightharpoonup> material"
  children :: "object3d list"
  next_obj :: nat
  draws :: nat

definition ARPlanes_new :: arplanes where
  "ARPlanes_new =
     \<lparr>planes = Map.empty, materialMap = Map.empty, children = [], next_obj = 0, draws = 0\<rparr>"

section \<open>The scene graph library\<close>

text \<open>
  \<open>Matrix4.set\<close> of the rendering library takes its sixteen arguments row by row and
  stores them column by column.
\<close>

definition Matrix4_set ::
  "'a \<Rightarrow> 'a \<Rightarrow> 'a \<Rightarrow> 'a \<Rightarrow> 'a \<Rightarrow> 'a \<Rightarrow> 'a \<Rightarrow> 'a \<Rightarrow> 'a \<Rightarrow> 'a \<Rightarrow> 'a \<Rightarrow> 'a \<Rightarrow> 'a \<Rightarrow> 'a \<Rightarrow> 'a \<Rightarrow> 'a \<Rightarrow> 'a list"
where
  "Matrix4_set n11 n12 n13 n14 n21 n22 n23 n24 n31 n32 n33 n34 n41 n42 n43 n44 =
     [n11, n21, n31, n41, n12, n22, n32, n42, n13, n23, n33, n43, n14, n24, n34, n44]"

text \<open>
  \<open>Object3D.add\<close> pushes a node that has no parent yet onto the children;
  \<open>Object3D.remove\<close> splices the first child that is the given object out, and does
  nothing when there is none.
\<close>

definition Object3D_add :: "object3d list \<Rightarrow> object3d \<Rightarrow> object3d list" where
  "Object3D_add cs obj = cs @ [obj]"

fun Object3D_remove :: "object3d list \<Rightarrow> object3d \<Rightarrow> object3d list" where
  "Object3D_remove [] obj = []"
| "Object3D_remove (c # cs) obj =
     (if obj_id c = obj_id obj then cs else c # Object3D_remove cs obj)"

section \<open>createPlane\<close>

text \<open>
  The first loop: \<open>for (let pt = 0; pt < plane.vertices.length / 3; pt++)\<close>. The
  division is the division of JavaScript numbers, not an integer division.
\<close>

function gen_vertices :: "num list \<Rightarrow> nat \<Rightarrow> vector3 list \<Rightarrow> vector3 list" where
  "gen_vertices vs pt acc =
     (if real pt < real (length vs) / 3
      then gen_vertices vs (pt + 1)
             (acc @ [Vector3_new (js_get vs (pt * 3)) (js_get vs (pt * 3 + 1)) (js_get vs (pt * 3 + 2))])
      else acc)"
  by pat_completeness auto
termination
  by (relation "measure (\<lambda>(vs, pt, acc). length vs - pt)") auto

text \<open>
  The second loop: \<open>for (let face = 0; face < geo.vertices.length - 2; face++)\<close>. The
  bound is negative for a single vertex, hence the integers.
\<close>

function gen_faces :: "nat \<Rightarrow> nat \<Rightarrow> face3 list \<Rightarrow> face3 list" where
  "gen_faces n face acc =
     (if int face < int n - 2
      then gen_faces n (face + 1) (acc @ [Face3 0 (face + 1) (face + 2)])
      else acc)"
  by pat_completeness auto
termination
  by (relation "measure (\<lambda>(n, face, acc). n - face)") auto

text \<open>
  \<open>createPlane\<close> returns the node, or \<open>None\<close> for the \<open>null\<close> of an empty vertex
  array, together with the state it leaves: it stores a new material in \<open>materialMap\<close>
  when the identifier has none. \<open>getRandomPaletteColor\<close> is a parameter: its argument
  is the number of earlier draws.
\<close>

definition createPlane ::
  "(nat \<Rightarrow> color) \<Rightarrow> arplanes \<Rightarrow> plane \<Rightarrow> object3d option \<times> arplanes"
where
  "createPlane getRandomPaletteColor s plane =
     (if length (vertices plane) = 0 then (None, s)
      else
        let pid = identifier plane;
            mm = modelMatrix plane;
            m = Matrix4_set
                  (js_get mm 0) (js_get mm 4) (js_get mm 8) (js_get mm 12)
                  (js_get mm 1) (js_get mm 5) (js_get mm 9) (js_get mm 13)
                  (js_get mm 2) (js_get mm 6) (js_get mm 10) (js_get mm 14)
                  (js_get mm 3) (js_get mm 7) (js_get mm 11) (js_get mm 15);
            gv = gen_vertices (vertices plane) 0 [];
            gf = gen_faces (length gv) 0 [];
            geo = \<lparr>geo_vertices = gv, geo_faces = gf\<rparr>;
            (mat, s1) =
              (case materialMap s pid of
                 Some stored \<Rightarrow> (stored, s)
               | None \<Rightarrow>
                   let color = getRandomPaletteColor (draws s);
                       fresh = \<lparr>mat_id = draws s, backgroundColor = color\<rparr>
                   in (fresh, s\<lparr>materialMap := (materialMap s)(pid \<mapsto> fresh),
                                 draws := draws s + 1\<rparr>));
            planeMesh = \<lparr>mesh_geometry = geo, mesh_material = mat\<rparr>;
            planeObj = \<lparr>obj_id = next_obj s1, matrixAutoUpdate = False, matrix = m,
                        obj_children = [planeMesh]\<rparr>
        in (Some planeObj, s1\<lparr>next_obj := next_obj s1 + 1\<rparr>))"

section \<open>The registry operations and the event handlers\<close>

definition addPlane :: "(nat \<Rightarrow> color) \<Rightarrow> arplanes \<Rightarrow> plane \<Rightarrow> arplanes" where
  "addPlane getRandomPaletteColor s plane =
     (case createPlane getRandomPaletteColor s plane of
        (None, s1) \<Rightarrow> s1
      | (Some planeObj, s1) \<Rightarrow>
          s1\<lparr>children := Object3D_add (children s1) planeObj,
             planes := (planes s1)(identifier plane \<mapsto> planeObj)\<rparr>)"

definition removePlane :: "arplanes \<Rightarrow> ident \<Rightarrow> arplanes" where
  "removePlane s pid =
     (let s1 = (case planes s pid of
                  Some existing \<Rightarrow> s\<lparr>children := Object3D_remove (children s) existing\<rparr>
                | None \<Rightarrow> s)
      in s1\<lparr>planes := (planes s1)(pid := None)\<rparr>)"

fun planesadded :: "(nat \<Rightarrow> color) \<Rightarrow> arplanes \<Rightarrow> plane list \<Rightarrow> arplanes" where
  "planesadded rnd s [] = s"
| "planesadded rnd s (plane # rest) = planesadded rnd (addPlane rnd s plane) rest"

fun planesupdated :: "(nat \<Rightarrow> color) \<Rightarrow> arplanes \<Rightarrow> plane list \<Rightarrow> arplanes" where
  "planesupdated rnd s [] = s"
| "planesupdated rnd s (plane # rest) =
     planesupdated rnd (addPlane rnd (removePlane s (identifier plane)) plane) rest"

fun planesremoved :: "arplanes \<Rightarrow> plane list \<Rightarrow> arplanes" where
  "planesremoved s [] = s"
| "planesremoved s (plane # rest) = planesremoved (removePlane s (identifier plane)) rest"

datatype event = PlanesAdded "plane list" | PlanesUpdated "plane list" | PlanesRemoved "plane list"

fun dispatch :: "(nat \<Rightarrow> color) \<Rightarrow> arplanes \<Rightarrow> event \<Rightarrow> arplanes" where
  "dispatch rnd s (PlanesAdded ps) = planesadded rnd s ps"
| "dispatch rnd s (PlanesUpdated ps) = planesupdated rnd s ps"
| "dispatch rnd s (PlanesRemoved ps) = planesremoved s ps"

fun process :: "(nat \<Rightarrow> color) \<Rightarrow> arplanes \<Rightarrow> event list \<Rightarrow> arplanes" where
  "process rnd s [] = s"
| "process rnd s (e # es) = process rnd (dispatch rnd s e) es"

declare gen_vertices.simps [simp del]
declare gen_faces.simps [simp del]

section \<open>The registry calls behind the notifications\<close>

text \<open>
  The adapter as the specification words it: a "planes added" batch is one upsert per
  plane, a "planes updated" batch is a remove followed by an upsert per plane, a
  "planes removed" batch is one remove per plane, in the order of the batch.
\<close>

datatype op = Upsert plane | Remove ident

fun ops_of_event :: "event \<Rightarrow> op list" where
  "ops_of_event (PlanesAdded ps) = map Upsert ps"
| "ops_of_event (PlanesUpdated ps) =
     concat (map (\<lambda>plane. [Remove (identifier plane), Upsert plane]) ps)"
| "ops_of_event (PlanesRemoved ps) = map (\<lambda>plane. Remove (identifier plane)) ps"

fun apply_op :: "(nat \<Rightarrow> color) \<Rightarrow> arplanes \<Rightarrow> op \<Rightarrow> arplanes" where
  "apply_op rnd s (Upsert plane) = addPlane rnd s plane"
| "apply_op rnd s (Remove pid) = removePlane s pid"

text \<open>
  An identifier was upserted and not removed afterwards: some upsert of a plane with
  vertices carries it, and no remove of it follows that upsert.
\<close>

definition upserted_not_removed :: "op list \<Rightarrow> ident \<Rightarrow> bool" where
  "upserted_not_removed ops x \<longleftrightarrow>
     (\<exists>pre plane post. ops = pre @ Upsert plane # post \<and> identifier plane = x \<and>
        vertices plane \<noteq> [] \<and> Remove x \<notin> set post)"

text \<open>
  The same at the level of the notifications, with no regard to the vertices: some
  "planes added" or "planes updated" batch names the identifier and no later "planes
  removed" batch does.
\<close>

fun event_idents :: "event \<Rightarrow> ident set" where
  "event_idents (PlanesAdded ps) = identifier ` set ps"
| "event_idents (PlanesUpdated ps) = identifier ` set ps"
| "event_idents (PlanesRemoved ps) = identifier ` set ps"

fun is_removal :: "event \<Rightarrow> bool" where
  "is_removal (PlanesRemoved ps) = True"
| "is_removal e = False"

definition notified_not_removed :: "event list \<Rightarrow> ident \<Rightarrow> bool" where
  "notified_not_removed es x \<longleftrightarrow>
     (\<exists>pre e post. es = pre @ e # post \<and> \<not> is_removal e \<and> x \<in> event_idents e \<and>
        \<not> (\<exists>r \<in> set post. is_removal r \<and> x \<in> event_idents r))"

section \<open>The scene graph and the registry agree\<close>

text \<open>
  The children of the instance are exactly the nodes of the tracked entries, each once;
  no node is the entry of two identifiers, and every node was numbered before the next
  free number.
\<close>

definition scene_inv :: "arplanes \<Rightarrow> bool" where
  "scene_inv s \<longleftrightarrow>
     distinct (map obj_id (children s)) \<and>
     set (children s) = ran (planes s) \<and>
     (\<forall>obj \<in> set (children s). obj_id obj < next_obj s) \<and>
     (\<forall>x y obj. planes s x = Some obj \<and> planes s y = Some obj \<longrightarrow> x = y)"

section \<open>Example planes\<close>

definition planeA :: plane where
  "planeA = \<lparr>identifier = ''p1'', vertices = [0, 0, 0, 1, 0, 0, 1, 0, 1, 0, 0, 1],
              modelMatrix = [1, 0, 0, 0, 0, 1, 0, 0, 0, 0, 1, 0, 2, 0, 3, 1]\<rparr>"

definition planeA2 :: plane where
  "planeA2 = \<lparr>identifier = ''p1'', vertices = [0, 0, 0, 2, 0, 0, 2, 0, 2],
               modelMatrix = [1, 0, 0, 0, 0, 1, 0, 0, 0, 0, 1, 0, 0, 0, 0, 1]\<rparr>"

definition planeB :: plane where
  "planeB = \<lparr>identifier = ''p2'', vertices = [0, 0, 0, 1, 0, 0, 0, 0, 1],
              modelMatrix = [1, 0, 0, 0, 0, 1, 0, 0, 0, 0, 1, 0, 0, 0, 0, 1]\<rparr>"

definition planeEmpty :: plane where
  "planeEmpty = \<lparr>identifier = ''p1'', vertices = [], modelMatrix = []\<rparr>"

section \<open>The geometry builder\<close>

lemma createPlane_empty: "vertices p = [] \<Longrightarrow> createPlane rnd s p = (None, s)"
  by (simp add: createPlane_def)

lemma addPlane_empty: "vertices p = [] \<Longrightarrow> addPlane rnd s p = s"
  by (simp add: addPlane_def createPlane_empty)

text \<open>The guard of the vertex loop, over the natural numbers.\<close>

lemma loop_guard: "real pt < real n / 3 \<longleftrightarrow> pt * 3 < n"
proof -
  have "real pt < real n / 3 \<longleftrightarrow> real (pt * 3) < real n"
    by (simp add: pos_less_divide_eq)
  then show ?thesis by (simp only: of_nat_less_iff)
qed

lemma gen_vertices_length:
  "length (gen_vertices vs pt acc) = length acc + ((length vs + 2) div 3 - pt)"
proof (induction vs pt acc rule: gen_vertices.induct)
  case (1 vs pt acc)
  show ?case
  proof (cases "real pt < real (length vs) / 3")
    case True
    then have lt: "pt * 3 < length vs"
      by (simp only: loop_guard)
    have "length (gen_vertices vs pt acc) = Suc (length acc) + ((length vs + 2) div 3 - Suc pt)"
      using "1.IH" [OF True] True by (subst gen_vertices.simps) simp
    with lt show ?thesis by simp
  next
    case False
    then have "length vs \<le> pt * 3"
      by (simp only: loop_guard not_less)
    with False show ?thesis by (subst gen_vertices.simps) simp
  qed
qed

lemma gen_faces_eq:
  "gen_faces n face acc = acc @ map (\<lambda>f. Face3 0 (f + 1) (f + 2)) [face..<n - 2]"
proof (induction n face acc rule: gen_faces.induct)
  case (1 n face acc)
  show ?case
  proof (cases "int face < int n - 2")
    case True
    then have lt: "face < n - 2" by linarith
    have "gen_faces n face acc =
        (acc @ [Face3 0 (face + 1) (face + 2)]) @
        map (\<lambda>f. Face3 0 (f + 1) (f + 2)) [face + 1..<n - 2]"
      using "1.IH" [OF True] True by (subst gen_faces.simps) simp
    with lt show ?thesis by (simp add: upt_conv_Cons)
  next
    case False
    then have "n - 2 \<le> face" by linarith
    with False show ?thesis by (subst gen_faces.simps) simp
  qed
qed

lemma upt16: "[0..<16] = [0, 1, 2, 3, 4, 5, 6, 7, 8, 9, 10, 11, 12, 13, 14, 15]"
  by (simp add: upt_rec)

text \<open>What \<open>createPlane\<close> builds from a plane with vertices.\<close>

lemma createPlane_Some:
  assumes "vertices p \<noteq> []"
  shows "\<exists>obj. fst (createPlane rnd s p) = Some obj \<and> obj_id obj = next_obj s
    \<and> matrixAutoUpdate obj = False
    \<and> matrix obj = map (js_get (modelMatrix p)) [0..<16]
    \<and> (\<exists>mat. obj_children obj =
          [\<lparr>mesh_geometry =
              \<lparr>geo_vertices = gen_vertices (vertices p) 0 [],
               geo_faces = gen_faces (length (gen_vertices (vertices p) 0 [])) 0 []\<rparr>,
            mesh_material = mat\<rparr>])"
  using assms
  by (simp add: createPlane_def Let_def Matrix4_set_def upt16 split: option.splits)

text \<open>
  C4. A plane whose flat vertex array holds \<open>n\<close> points (\<open>3 * n\<close> numbers): for
  \<open>n = 0\<close> the builder returns \<open>null\<close>; otherwise it returns a node whose mesh has
  \<open>n\<close> vertices and the faces \<open>(0, face + 1, face + 2)\<close> for \<open>face\<close> from \<open>0\<close> to
  \<open>n - 3\<close> in this order: none for \<open>n < 3\<close>, and \<open>n - 2\<close> of them for \<open>n \<ge> 3\<close>.
\<close>

theorem createPlane_triangle_fan:
  assumes "length (vertices p) = 3 * n"
  shows "(n = 0 \<longrightarrow> fst (createPlane rnd s p) = None) \<and>
    (0 < n \<longrightarrow>
      (\<exists>obj msh. fst (createPlane rnd s p) = Some obj \<and> obj_children obj = [msh] \<and>
         length (geo_vertices (mesh_geometry msh)) = n \<and>
         geo_faces (mesh_geometry msh) = map (\<lambda>face. Face3 0 (face + 1) (face + 2)) [0..<n - 2] \<and>
         (n < 3 \<longrightarrow> geo_faces (mesh_geometry msh) = []) \<and>
         (3 \<le> n \<longrightarrow> length (geo_faces (mesh_geometry msh)) = n - 2)))"
proof (cases "n = 0")
  case True
  with assms show ?thesis by (simp add: createPlane_empty)
next
  case False
  with assms have ne: "vertices p \<noteq> []" by auto
  have len: "length (gen_vertices (vertices p) 0 []) = n"
    using assms by (simp add: gen_vertices_length)
  from createPlane_Some [OF ne, of rnd s] obtain obj mat where
    obj: "fst (createPlane rnd s p) = Some obj"
    and ch: "obj_children obj =
          [\<lparr>mesh_geometry =
              \<lparr>geo_vertices = gen_vertices (vertices p) 0 [],
               geo_faces = gen_faces (length (gen_vertices (vertices p) 0 [])) 0 []\<rparr>,
            mesh_material = mat\<rparr>]"
    by blast
  from False obj ch len show ?thesis
    by (simp add: gen_faces_eq)
qed

text \<open>The four-point plane of scenario A gives the triangles (0,1,2) and (0,2,3).\<close>

theorem createPlane_triangle_fan_witness:
  "length (vertices planeA) = 3 * 4 \<and>
   (\<exists>obj msh. fst (createPlane (\<lambda>k. k) ARPlanes_new planeA) = Some obj \<and>
      obj_children obj = [msh] \<and>
      geo_faces (mesh_geometry msh) = [Face3 0 1 2, Face3 0 2 3])"
  using createPlane_triangle_fan [of planeA 4 "\<lambda>k. k" ARPlanes_new]
  by (auto simp add: planeA_def upt_rec numeral_2_eq_2 numeral_3_eq_3)

text \<open>
  C9. For a plane with vertices the node has \<open>matrixAutoUpdate\<close> switched off and its
  matrix holds, element by element, the sixteen entries of \<open>modelMatrix\<close>: the arguments
  of \<open>Matrix4.set\<close> are read from the column-major array in row order and stored back in
  column order. Nothing in the builder decomposes the matrix.
\<close>

theorem createPlane_fixed_matrix:
  assumes "vertices p \<noteq> []"
  shows "\<exists>obj. fst (createPlane rnd s p) = Some obj \<and> matrixAutoUpdate obj = False \<and>
     matrix obj = map (js_get (modelMatrix p)) [0..<16] \<and>
     (length (modelMatrix p) = 16 \<longrightarrow> matrix obj = map Some (modelMatrix p))"
proof -
  from createPlane_Some [OF assms, of rnd s] obtain obj where
    obj: "fst (createPlane rnd s p) = Some obj" "matrixAutoUpdate obj = False"
      "matrix obj = map (js_get (modelMatrix p)) [0..<16]"
    by blast
  have "map (js_get mm) [0..<length mm] = map Some mm" for mm :: "num list"
  proof -
    have "map (js_get mm) [0..<length mm] = map (\<lambda>i. Some (mm ! i)) [0..<length mm]"
      by (rule map_cong) (simp_all add: js_get_def)
    also have "\<dots> = map Some (map ((!) mm) [0..<length mm])" by simp
    also have "\<dots> = map Some mm" by (simp only: map_nth)
    finally show ?thesis .
  qed
  from this [of "modelMatrix p"] obj show ?thesis by auto
qed

theorem createPlane_fixed_matrix_witness:
  "vertices planeA \<noteq> [] \<and>
   (\<exists>obj. fst (createPlane (\<lambda>k. k) ARPlanes_new planeA) = Some obj \<and>
      matrixAutoUpdate obj = False \<and>
      matrix obj = map Some [1, 0, 0, 0, 0, 1, 0, 0, 0, 0, 1, 0, 2, 0, 3, 1])"
  using createPlane_fixed_matrix [of planeA "\<lambda>k. k" ARPlanes_new]
  by (auto simp add: planeA_def)

section \<open>Upsert and remove\<close>

text \<open>
  What \<open>addPlane\<close> does with a plane that has vertices: the new node takes the next
  free number, becomes the entry of the identifier and the last child, and its mesh
  carries the material that \<open>materialMap\<close> holds for the identifier afterwards: the
  stored one when there was one, a new clone with a drawn colour otherwise.
\<close>

lemma addPlane_Some:
  assumes "vertices p \<noteq> []"
  shows "\<exists>obj msh. obj_id obj = next_obj s \<and> obj_children obj = [msh] \<and>
     planes (addPlane rnd s p) = (planes s)(identifier p \<mapsto> obj) \<and>
     children (addPlane rnd s p) = children s @ [obj] \<and>
     next_obj (addPlane rnd s p) = Suc (next_obj s) \<and>
     materialMap (addPlane rnd s p) (identifier p) = Some (mesh_material msh) \<and>
     (case materialMap s (identifier p) of
        Some stored \<Rightarrow> mesh_material msh = stored \<and> draws (addPlane rnd s p) = draws s \<and>
          materialMap (addPlane rnd s p) = materialMap s
      | None \<Rightarrow> mesh_material msh = \<lparr>mat_id = draws s, backgroundColor = rnd (draws s)\<rparr> \<and>
          draws (addPlane rnd s p) = Suc (draws s) \<and>
          materialMap (addPlane rnd s p) = (materialMap s)(identifier p \<mapsto> mesh_material msh))"
proof -
  define mat where "mat =
    (case materialMap s (identifier p) of Some stored \<Rightarrow> stored
     | None \<Rightarrow> \<lparr>mat_id = draws s, backgroundColor = rnd (draws s)\<rparr>)"
  define msh where "msh =
    \<lparr>mesh_geometry =
       \<lparr>geo_vertices = gen_vertices (vertices p) 0 [],
        geo_faces = gen_faces (length (gen_vertices (vertices p) 0 [])) 0 []\<rparr>,
     mesh_material = mat\<rparr>"
  define obj where "obj =
    \<lparr>obj_id = next_obj s, matrixAutoUpdate = False,
     matrix = map (js_get (modelMatrix p)) [0..<16], obj_children = [msh]\<rparr>"
  show ?thesis
    using assms
    by (intro exI [of _ obj] exI [of _ msh])
      (simp add: obj_def msh_def mat_def addPlane_def createPlane_def Let_def Object3D_add_def
        Matrix4_set_def upt16 split: option.splits)
qed

lemma materialMap_removePlane: "materialMap (removePlane s x) = materialMap s"
  by (simp add: removePlane_def split: option.splits)

lemma planes_removePlane: "planes (removePlane s x) = (planes s)(x := None)"
  by (simp add: removePlane_def split: option.splits)

lemma planes_addPlane_other:
  "identifier p \<noteq> x \<Longrightarrow> planes (addPlane rnd s p) x = planes s x"
proof (cases "vertices p = []")
  case True
  then show ?thesis by (simp add: addPlane_empty)
next
  case False
  assume "identifier p \<noteq> x"
  with addPlane_Some [OF False, of s rnd] show ?thesis by auto
qed

lemma planes_addPlane_dom:
  "planes (addPlane rnd s p) x \<noteq> None \<longleftrightarrow>
     (identifier p = x \<and> vertices p \<noteq> []) \<or> planes s x \<noteq> None"
proof (cases "vertices p = []")
  case True
  then show ?thesis by (simp add: addPlane_empty)
next
  case False
  from addPlane_Some [OF False, of s rnd] show ?thesis using False by auto
qed

text \<open>
  C7. An upsert of a plane with no vertices changes nothing: the builder returns
  \<open>null\<close> and leaves the state as it is, \<open>addPlane\<close> skips the plane, so an entry that
  the identifier already has stays. The model has no error value: neither function
  can throw on a plane of this shape.
\<close>

theorem upsert_empty_vertices_noop:
  assumes "vertices p = []"
  shows "createPlane rnd s p = (None, s) \<and> addPlane rnd s p = s"
  using assms by (simp add: createPlane_empty addPlane_empty)

theorem upsert_empty_vertices_noop_witness:
  "vertices planeEmpty = [] \<and>
   addPlane (\<lambda>k. k) (addPlane (\<lambda>k. k) ARPlanes_new planeA) planeEmpty =
     addPlane (\<lambda>k. k) ARPlanes_new planeA \<and>
   map_option obj_id
     (planes (addPlane (\<lambda>k. k) (addPlane (\<lambda>k. k) ARPlanes_new planeA) planeEmpty) ''p1'') =
     Some 0"
  using upsert_empty_vertices_noop
    [of planeEmpty "\<lambda>k. k" "addPlane (\<lambda>k. k) ARPlanes_new planeA"]
  by (simp add: planeEmpty_def planeA_def addPlane_def createPlane_def ARPlanes_new_def Let_def)

lemma removePlane_twice: "removePlane (removePlane s x) x = removePlane s x"
  by (simp add: removePlane_def split: option.splits)

lemma removePlane_unknown: "planes s x = None \<Longrightarrow> removePlane s x = s"
  by (simp add: removePlane_def fun_upd_idem)

text \<open>
  C8. Removing an identifier twice leaves the state that removing it once leaves, and
  removing an identifier that has no entry leaves the state as it is.
\<close>

theorem removePlane_idempotent:
  "removePlane (removePlane s x) x = removePlane s x \<and>
   (planes s x = None \<longrightarrow> removePlane s x = s)"
  by (simp add: removePlane_twice removePlane_unknown)

theorem removePlane_idempotent_witness:
  "removePlane (removePlane (addPlane (\<lambda>k. k) ARPlanes_new planeA) ''p1'') ''p1'' =
     removePlane (addPlane (\<lambda>k. k) ARPlanes_new planeA) ''p1'' \<and>
   planes ARPlanes_new ''p2'' = None \<and> removePlane ARPlanes_new ''p2'' = ARPlanes_new"
  using removePlane_idempotent [of "addPlane (\<lambda>k. k) ARPlanes_new planeA" "''p1''"]
    removePlane_idempotent [of ARPlanes_new "''p2''"]
  by (simp add: ARPlanes_new_def)

text \<open>
  C5. Let an upsert of a plane with vertices and identifier \<open>X\<close> be followed, in any
  state \<open>s2\<close> whose colour assignment for \<open>X\<close> is still the one the first upsert left, by
  an upsert of another plane with vertices and the same identifier. Then the material of
  the second node's mesh is the material of the first node's mesh, it is still the
  assignment of \<open>X\<close>, and the second upsert draws no colour.
\<close>

theorem color_reused_on_second_upsert:
  assumes "vertices p \<noteq> []" and "vertices p' \<noteq> []" and "identifier p' = identifier p"
    and "materialMap s2 (identifier p) = materialMap (addPlane rnd s p) (identifier p)"
  shows "\<exists>obj1 msh1 obj2 msh2.
     planes (addPlane rnd s p) (identifier p) = Some obj1 \<and> obj_children obj1 = [msh1] \<and>
     planes (addPlane rnd s2 p') (identifier p) = Some obj2 \<and> obj_children obj2 = [msh2] \<and>
     mesh_material msh2 = mesh_material msh1 \<and>
     materialMap (addPlane rnd s2 p') (identifier p) = Some (mesh_material msh1) \<and>
     draws (addPlane rnd s2 p') = draws s2"
proof -
  from addPlane_Some [OF assms(1), of s rnd] obtain obj1 msh1 where
    1: "planes (addPlane rnd s p) = (planes s)(identifier p \<mapsto> obj1)"
      "obj_children obj1 = [msh1]"
      "materialMap (addPlane rnd s p) (identifier p) = Some (mesh_material msh1)"
    by blast
  from addPlane_Some [OF assms(2), of s2 rnd] obtain obj2 msh2 where
    2: "planes (addPlane rnd s2 p') = (planes s2)(identifier p' \<mapsto> obj2)"
      "obj_children obj2 = [msh2]"
      "materialMap (addPlane rnd s2 p') (identifier p') = Some (mesh_material msh2)"
      "case materialMap s2 (identifier p') of
        Some stored \<Rightarrow> mesh_material msh2 = stored \<and> draws (addPlane rnd s2 p') = draws s2 \<and>
          materialMap (addPlane rnd s2 p') = materialMap s2
      | None \<Rightarrow> mesh_material msh2 = \<lparr>mat_id = draws s2, backgroundColor = rnd (draws s2)\<rparr> \<and>
          draws (addPlane rnd s2 p') = Suc (draws s2) \<and>
          materialMap (addPlane rnd s2 p') = (materialMap s2)(identifier p' \<mapsto> mesh_material msh2)"
    by blast
  from assms(3,4) 1(3) have "materialMap s2 (identifier p') = Some (mesh_material msh1)"
    by simp
  with 2(4) have "mesh_material msh2 = mesh_material msh1"
    and "draws (addPlane rnd s2 p') = draws s2" by simp_all
  with 1 2 assms(3) show ?thesis by simp
qed

text \<open>
  The state between the two upserts is here the one the "planes updated" handler passes
  through: the entry of \<open>p1\<close> removed, its material still stored.
\<close>

theorem color_reused_on_second_upsert_witness:
  "vertices planeA \<noteq> [] \<and> vertices planeA2 \<noteq> [] \<and> identifier planeA2 = identifier planeA \<and>
   materialMap (removePlane (addPlane (\<lambda>k. 7 + k) ARPlanes_new planeA) ''p1'') (identifier planeA) =
     materialMap (addPlane (\<lambda>k. 7 + k) ARPlanes_new planeA) (identifier planeA) \<and>
   materialMap
     (addPlane (\<lambda>k. 7 + k) (removePlane (addPlane (\<lambda>k. 7 + k) ARPlanes_new planeA) ''p1'') planeA2)
     ''p1'' = Some \<lparr>mat_id = 0, backgroundColor = 7\<rparr> \<and>
   draws (addPlane (\<lambda>k. 7 + k) (removePlane (addPlane (\<lambda>k. 7 + k) ARPlanes_new planeA) ''p1'') planeA2) = 1"
  using color_reused_on_second_upsert [of planeA planeA2
      "removePlane (addPlane (\<lambda>k. 7 + k) ARPlanes_new planeA) ''p1''" "\<lambda>k. 7 + k" ARPlanes_new]
  by (simp add: planeA_def planeA2_def addPlane_def createPlane_def removePlane_def
      ARPlanes_new_def Let_def)

text \<open>
  C1. \<open>removePlane\<close> deletes the entry and detaches the node, and leaves
  \<open>materialMap\<close> as it is, although the comment at the declaration of the map asks to clear
  it on removal. So after "planes added" and "planes removed" for \<open>p1\<close> the material
  of \<open>p1\<close> is still stored, and a second "planes added" for \<open>p1\<close> reuses it: the
  number of drawn colours stays at one.
\<close>

theorem removal_keeps_color_assignment:
  "materialMap (removePlane s x) = materialMap s \<and>
   materialMap (process rnd ARPlanes_new [PlanesAdded [planeA], PlanesRemoved [planeA]]) ''p1'' =
     Some \<lparr>mat_id = 0, backgroundColor = rnd 0\<rparr> \<and>
   draws (process rnd ARPlanes_new [PlanesAdded [planeA], PlanesRemoved [planeA]]) = 1 \<and>
   draws (process rnd ARPlanes_new
            [PlanesAdded [planeA], PlanesRemoved [planeA], PlanesAdded [planeA]]) = 1"
proof -
  have kept: "materialMap (removePlane s x) = materialMap s"
    by (rule materialMap_removePlane)
  have run: "materialMap (process rnd ARPlanes_new [PlanesAdded [planeA], PlanesRemoved [planeA]]) ''p1'' =
     Some \<lparr>mat_id = 0, backgroundColor = rnd 0\<rparr> \<and>
   draws (process rnd ARPlanes_new [PlanesAdded [planeA], PlanesRemoved [planeA]]) = 1 \<and>
   draws (process rnd ARPlanes_new
            [PlanesAdded [planeA], PlanesRemoved [planeA], PlanesAdded [planeA]]) = 1"
    by (simp add: planeA_def addPlane_def createPlane_def removePlane_def
        ARPlanes_new_def Let_def)
  from kept run show ?thesis by blast
qed

section \<open>The event handlers\<close>

text \<open>
  C6. The handler of "planes updated" goes through the batch from its first plane to
  its last and does, for each plane, \<open>removePlane\<close> of its identifier and then
  \<open>addPlane\<close> of the plane: it is the left fold of that composition over the batch.
\<close>

theorem planesupdated_remove_then_upsert:
  "planesupdated rnd s ps =
     foldl (\<lambda>st plane. addPlane rnd (removePlane st (identifier plane)) plane) s ps"
  by (induction ps arbitrary: s) simp_all

lemma planesupdated_append:
  "planesupdated rnd s (ps @ qs) = planesupdated rnd (planesupdated rnd s ps) qs"
  by (induction ps arbitrary: s) simp_all

lemma planesupdated_stays_untracked:
  assumes "\<forall>q \<in> set ps. identifier q = x \<longrightarrow> vertices q = []" and "planes s x = None"
  shows "planes (planesupdated rnd s ps) x = None"
  using assms
proof (induction ps arbitrary: s)
  case Nil
  then show ?case by simp
next
  case (Cons q qs)
  have "planes (addPlane rnd (removePlane s (identifier q)) q) x = None"
  proof (cases "identifier q = x")
    case True
    with Cons.prems(1) have "vertices q = []" by simp
    with True show ?thesis by (simp add: addPlane_empty planes_removePlane)
  next
    case False
    with Cons.prems(2) show ?thesis
      by (simp add: planes_addPlane_other planes_removePlane)
  qed
  with Cons show ?case by simp
qed

text \<open>
  C10, as stated, fails on a batch that names the identifier twice: \<open>p1\<close> has an
  entry (node 0), the "planes updated" batch holds a plane for \<open>p1\<close> with no vertices
  and, after it, a plane for \<open>p1\<close> with vertices, and \<open>p1\<close> has an entry afterwards
  (node 1).
\<close>

theorem planesupdated_empty_vertices_counterexample:
  "planeEmpty \<in> set [planeEmpty, planeA2] \<and> vertices planeEmpty = [] \<and>
   identifier planeEmpty = ''p1'' \<and>
   map_option obj_id (planes (addPlane (\<lambda>k. k) ARPlanes_new planeA) ''p1'') = Some 0 \<and>
   map_option obj_id
     (planes (planesupdated (\<lambda>k. k) (addPlane (\<lambda>k. k) ARPlanes_new planeA) [planeEmpty, planeA2])
        ''p1'') = Some 1"
  by (simp add: planeEmpty_def planeA_def planeA2_def addPlane_def createPlane_def removePlane_def
      ARPlanes_new_def Let_def)

text \<open>
  C10, amended. A "planes updated" batch holds a plane \<open>p\<close> with no vertices, and no
  plane after \<open>p\<close> in the batch has the identifier of \<open>p\<close> and vertices (so in every
  batch that names each identifier once). Then the identifier has no entry after the
  batch, whether it had one before or not: the handler removes the entry and
  \<open>addPlane\<close> skips the plane. \<open>addPlane\<close> alone, on the same plane, leaves the state
  as it is.
\<close>

theorem planesupdated_empty_vertices_untracks:
  assumes "ps = pre @ p # post" and "vertices p = []"
    and "\<forall>q \<in> set post. identifier q = identifier p \<longrightarrow> vertices q = []"
  shows "planes (planesupdated rnd s ps) (identifier p) = None \<and> addPlane rnd s p = s"
proof -
  let ?s1 = "removePlane (planesupdated rnd s pre) (identifier p)"
  have "planesupdated rnd s ps = planesupdated rnd (addPlane rnd ?s1 p) post"
    using assms(1) by (simp add: planesupdated_append)
  also have "addPlane rnd ?s1 p = ?s1"
    using assms(2) by (rule addPlane_empty)
  finally have "planesupdated rnd s ps = planesupdated rnd ?s1 post" .
  moreover have "planes (planesupdated rnd ?s1 post) (identifier p) = None"
    using assms(3) by (rule planesupdated_stays_untracked) (simp add: planes_removePlane)
  ultimately show ?thesis using assms(2) by (simp add: addPlane_empty)
qed

theorem planesupdated_empty_vertices_untracks_witness:
  "[planeB, planeEmpty] = [planeB] @ planeEmpty # [] \<and> vertices planeEmpty = [] \<and>
   map_option obj_id (planes (addPlane (\<lambda>k. k) ARPlanes_new planeA) ''p1'') = Some 0 \<and>
   planes (planesupdated (\<lambda>k. k) (addPlane (\<lambda>k. k) ARPlanes_new planeA) [planeB, planeEmpty]) ''p1'' = None \<and>
   map_option obj_id
     (planes (addPlane (\<lambda>k. k) (addPlane (\<lambda>k. k) ARPlanes_new planeA) planeEmpty) ''p1'') = Some 0"
  using planesupdated_empty_vertices_untracks
    [of "[planeB, planeEmpty]" "[planeB]" planeEmpty "[]" "\<lambda>k. k" "addPlane (\<lambda>k. k) ARPlanes_new planeA"]
  by (simp add: planeEmpty_def planeB_def planeA_def addPlane_def createPlane_def ARPlanes_new_def Let_def)

section \<open>The tracked identifiers after a sequence of notifications\<close>

text \<open>
  The handlers do what the registry calls, taken one after the other, do.
\<close>

lemma foldl_apply_op_planesadded:
  "foldl (apply_op rnd) s (map Upsert ps) = planesadded rnd s ps"
  by (induction ps arbitrary: s) simp_all

lemma foldl_apply_op_planesupdated:
  "foldl (apply_op rnd) s (concat (map (\<lambda>plane. [Remove (identifier plane), Upsert plane]) ps)) =
     planesupdated rnd s ps"
  by (induction ps arbitrary: s) simp_all

lemma foldl_apply_op_planesremoved:
  "foldl (apply_op rnd) s (map (\<lambda>plane. Remove (identifier plane)) ps) = planesremoved s ps"
  by (induction ps arbitrary: s) simp_all

lemma dispatch_ops: "dispatch rnd s e = foldl (apply_op rnd) s (ops_of_event e)"
  by (cases e)
    (simp_all add: foldl_apply_op_planesadded foldl_apply_op_planesupdated
      foldl_apply_op_planesremoved)

lemma process_ops:
  "process rnd s es = foldl (apply_op rnd) s (concat (map ops_of_event es))"
  by (induction es arbitrary: s) (simp_all add: dispatch_ops)

lemma upserted_not_removed_Nil: "\<not> upserted_not_removed [] x"
  by (simp add: upserted_not_removed_def)

lemma upserted_not_removed_snoc:
  "upserted_not_removed (ops @ [a]) x \<longleftrightarrow>
     (case a of
        Upsert plane \<Rightarrow> (identifier plane = x \<and> vertices plane \<noteq> []) \<or> upserted_not_removed ops x
      | Remove y \<Rightarrow> y \<noteq> x \<and> upserted_not_removed ops x)"
proof
  assume "upserted_not_removed (ops @ [a]) x"
  then obtain pre plane post where
    eq: "ops @ [a] = pre @ Upsert plane # post" and
    pl: "identifier plane = x" "vertices plane \<noteq> []" and nr: "Remove x \<notin> set post"
    by (auto simp add: upserted_not_removed_def)
  show "case a of
        Upsert plane \<Rightarrow> (identifier plane = x \<and> vertices plane \<noteq> []) \<or> upserted_not_removed ops x
      | Remove y \<Rightarrow> y \<noteq> x \<and> upserted_not_removed ops x"
  proof (cases post rule: rev_cases)
    case Nil
    with eq have "a = Upsert plane" by simp
    with pl show ?thesis by simp
  next
    case (snoc post' z)
    with eq have ops: "ops = pre @ Upsert plane # post'" and a: "a = z" by simp_all
    from nr snoc a have "Remove x \<notin> set post'" "a \<noteq> Remove x" by auto
    with ops pl have "upserted_not_removed ops x"
      by (auto simp add: upserted_not_removed_def)
    with \<open>a \<noteq> Remove x\<close> show ?thesis by (cases a) auto
  qed
next
  assume r: "case a of
        Upsert plane \<Rightarrow> (identifier plane = x \<and> vertices plane \<noteq> []) \<or> upserted_not_removed ops x
      | Remove y \<Rightarrow> y \<noteq> x \<and> upserted_not_removed ops x"
  have keep: "upserted_not_removed (ops @ [a]) x" if "upserted_not_removed ops x" "a \<noteq> Remove x"
  proof -
    from that obtain pre plane post where
      "ops = pre @ Upsert plane # post" "identifier plane = x" "vertices plane \<noteq> []"
      "Remove x \<notin> set post"
      by (auto simp add: upserted_not_removed_def)
    with that(2) have "ops @ [a] = pre @ Upsert plane # (post @ [a]) \<and> identifier plane = x \<and>
        vertices plane \<noteq> [] \<and> Remove x \<notin> set (post @ [a])"
      by auto
    then show ?thesis unfolding upserted_not_removed_def by blast
  qed
  show "upserted_not_removed (ops @ [a]) x"
  proof (cases a)
    case (Upsert plane)
    show ?thesis
    proof (cases "identifier plane = x \<and> vertices plane \<noteq> []")
      case True
      then have "ops @ [a] = ops @ Upsert plane # [] \<and> identifier plane = x \<and>
        vertices plane \<noteq> [] \<and> Remove x \<notin> set []"
        using Upsert by simp
      then show ?thesis unfolding upserted_not_removed_def by blast
    next
      case False
      with r Upsert have "upserted_not_removed ops x" by auto
      moreover from Upsert have "a \<noteq> Remove x" by simp
      ultimately show ?thesis by (rule keep)
    qed
  next
    case (Remove y)
    with r have "upserted_not_removed ops x" and "a \<noteq> Remove x" by auto
    then show ?thesis by (rule keep)
  qed
qed

lemma tracked_after_ops:
  "planes (foldl (apply_op rnd) s ops) x \<noteq> None \<longleftrightarrow>
     upserted_not_removed ops x \<or> (planes s x \<noteq> None \<and> Remove x \<notin> set ops)"
proof (induction ops rule: rev_induct)
  case Nil
  show ?case by (simp add: upserted_not_removed_Nil)
next
  case (snoc a ops)
  show ?case
  proof (cases a)
    case (Upsert plane)
    with snoc show ?thesis
      by (auto simp add: upserted_not_removed_snoc planes_addPlane_dom simp del: not_None_eq)
  next
    case (Remove y)
    with snoc show ?thesis
      by (auto simp add: upserted_not_removed_snoc planes_removePlane simp del: not_None_eq)
  qed
qed

text \<open>
  C3, as stated, fails on a plane with no vertices: a "planes added" batch names
  \<open>p1\<close>, no "planes removed" batch follows, and \<open>p1\<close> has no entry.
\<close>

theorem tracked_ids_counterexample:
  "notified_not_removed [PlanesAdded [planeEmpty]] ''p1'' \<and>
   planes (process (\<lambda>k. k) ARPlanes_new [PlanesAdded [planeEmpty]]) ''p1'' = None"
proof -
  have "[PlanesAdded [planeEmpty]] = [] @ PlanesAdded [planeEmpty] # [] \<and>
      \<not> is_removal (PlanesAdded [planeEmpty]) \<and> ''p1'' \<in> event_idents (PlanesAdded [planeEmpty]) \<and>
      \<not> (\<exists>r \<in> set []. is_removal r \<and> ''p1'' \<in> event_idents r)"
    by (simp add: planeEmpty_def)
  then have "notified_not_removed [PlanesAdded [planeEmpty]] ''p1''"
    unfolding notified_not_removed_def by blast
  moreover have "planes (process (\<lambda>k. k) ARPlanes_new [PlanesAdded [planeEmpty]]) ''p1'' = None"
    by (simp add: planeEmpty_def addPlane_empty ARPlanes_new_def)
  ultimately show ?thesis by simp
qed

text \<open>
  C3, amended. After any sequence of notifications, processed from the state of the
  constructor, the identifiers with an entry are those that some upsert of a plane with
  vertices carries (from a "planes added" or a "planes updated" batch) with no remove of
  the identifier after it, where the remove that "planes updated" does before its upsert
  counts as a remove.
\<close>

theorem tracked_ids_after_notifications:
  "dom (planes (process rnd ARPlanes_new es)) =
     {x. upserted_not_removed (concat (map ops_of_event es)) x}"
proof -
  have "planes (process rnd ARPlanes_new es) x \<noteq> None \<longleftrightarrow>
      upserted_not_removed (concat (map ops_of_event es)) x" for x
    by (simp only: process_ops tracked_after_ops) (simp add: ARPlanes_new_def)
  then show ?thesis by (auto simp add: dom_def)
qed

text \<open>
  Scenario C: add \<open>p1\<close>, add \<open>p2\<close>, remove \<open>p1\<close>; the entry of \<open>p2\<close> remains.
\<close>

theorem tracked_ids_after_notifications_witness:
  "{x. upserted_not_removed
         (concat (map ops_of_event [PlanesAdded [planeA], PlanesAdded [planeB], PlanesRemoved [planeA]])) x} =
     {''p2''}"
  using tracked_ids_after_notifications
    [of "\<lambda>k. k" "[PlanesAdded [planeA], PlanesAdded [planeB], PlanesRemoved [planeA]]", symmetric]
  by (simp add: planeA_def planeB_def addPlane_def createPlane_def removePlane_def
      ARPlanes_new_def Let_def)

section \<open>No dangling node in the scene graph\<close>

lemma Object3D_remove_remove1:
  "distinct (map obj_id cs) \<Longrightarrow> obj \<in> set cs \<Longrightarrow> Object3D_remove cs obj = remove1 obj cs"
  by (induction cs) (auto simp add: rev_image_eqI)

lemma ran_delete_inj:
  assumes "m x = Some v" and "\<forall>a b c. m a = Some c \<and> m b = Some c \<longrightarrow> a = b"
  shows "ran (m(x := None)) = ran m - {v}"
proof (rule set_eqI)
  fix w
  show "w \<in> ran (m(x := None)) \<longleftrightarrow> w \<in> ran m - {v}"
  proof
    assume "w \<in> ran (m(x := None))"
    then obtain a where a: "a \<noteq> x" "m a = Some w"
      by (auto simp add: ran_def split: if_splits)
    with assms have "w \<noteq> v" by blast
    with a show "w \<in> ran m - {v}" by (auto simp add: ran_def)
  next
    assume "w \<in> ran m - {v}"
    then obtain a where a: "m a = Some w" "w \<noteq> v" by (auto simp add: ran_def)
    with assms(1) have "a \<noteq> x" by auto
    with a show "w \<in> ran (m(x := None))" by (auto simp add: ran_def)
  qed
qed

lemma scene_inv_new: "scene_inv ARPlanes_new"
  by (simp add: scene_inv_def ARPlanes_new_def)

lemma scene_inv_removePlane:
  assumes "scene_inv s"
  shows "scene_inv (removePlane s x)"
proof (cases "planes s x")
  case None
  then have "removePlane s x = s" by (simp add: removePlane_def fun_upd_idem)
  with assms show ?thesis by simp
next
  case (Some obj)
  from assms have d: "distinct (map obj_id (children s))"
    and r: "set (children s) = ran (planes s)"
    and b: "\<forall>obj \<in> set (children s). obj_id obj < next_obj s"
    and i: "\<forall>x y obj. planes s x = Some obj \<and> planes s y = Some obj \<longrightarrow> x = y"
    by (simp_all add: scene_inv_def)
  from Some r have mem: "obj \<in> set (children s)" by (auto simp add: ran_def)
  from d have d': "distinct (children s)" by (simp add: distinct_map)
  have ch: "children (removePlane s x) = remove1 obj (children s)"
    using Some by (simp add: removePlane_def Object3D_remove_remove1 [OF d mem])
  have pl: "planes (removePlane s x) = (planes s)(x := None)"
    by (simp add: planes_removePlane)
  have nx: "next_obj (removePlane s x) = next_obj s"
    using Some by (simp add: removePlane_def)
  have ran: "ran ((planes s)(x := None)) = ran (planes s) - {obj}"
    using Some i by (rule ran_delete_inj)
  have "distinct (map obj_id (remove1 obj (children s)))"
    using d d' by (simp add: distinct_map inj_on_diff)
  moreover have "set (remove1 obj (children s)) = ran ((planes s)(x := None))"
    using d' r ran by simp
  moreover have "\<forall>c \<in> set (remove1 obj (children s)). obj_id c < next_obj s"
    using b d' by simp
  moreover have "\<forall>a y c. ((planes s)(x := None)) a = Some c \<and> ((planes s)(x := None)) y = Some c \<longrightarrow> a = y"
    using i by (auto split: if_splits)
  ultimately show ?thesis
    unfolding scene_inv_def ch pl nx by blast
qed

lemma scene_inv_addPlane:
  assumes "scene_inv s" and "planes s (identifier p) = None"
  shows "scene_inv (addPlane rnd s p)"
proof (cases "vertices p = []")
  case True
  with assms show ?thesis by (simp add: addPlane_empty)
next
  case False
  from assms have d: "distinct (map obj_id (children s))"
    and r: "set (children s) = ran (planes s)"
    and b: "\<forall>obj \<in> set (children s). obj_id obj < next_obj s"
    and i: "\<forall>x y obj. planes s x = Some obj \<and> planes s y = Some obj \<longrightarrow> x = y"
    by (simp_all add: scene_inv_def)
  from addPlane_Some [OF False, of s rnd] obtain obj where
    id: "obj_id obj = next_obj s"
    and pl: "planes (addPlane rnd s p) = (planes s)(identifier p \<mapsto> obj)"
    and ch: "children (addPlane rnd s p) = children s @ [obj]"
    and nx: "next_obj (addPlane rnd s p) = Suc (next_obj s)"
    by blast
  from b id have fresh: "obj_id obj \<notin> obj_id ` set (children s)" by auto
  then have new: "obj \<notin> set (children s)" by auto
  have "distinct (map obj_id (children s @ [obj]))"
    using d fresh by simp
  moreover have "set (children s @ [obj]) = ran ((planes s)(identifier p \<mapsto> obj))"
    using r assms(2) by simp
  moreover have "\<forall>c \<in> set (children s @ [obj]). obj_id c < Suc (next_obj s)"
    using b id by auto
  moreover have "\<forall>a y c. ((planes s)(identifier p \<mapsto> obj)) a = Some c \<and>
      ((planes s)(identifier p \<mapsto> obj)) y = Some c \<longrightarrow> a = y"
    using i new r by (auto simp add: ran_def split: if_splits)
  ultimately show ?thesis
    unfolding scene_inv_def ch pl nx by blast
qed

lemma scene_inv_planesremoved: "scene_inv s \<Longrightarrow> scene_inv (planesremoved s ps)"
  by (induction ps arbitrary: s) (simp_all add: scene_inv_removePlane)

lemma scene_inv_planesupdated: "scene_inv s \<Longrightarrow> scene_inv (planesupdated rnd s ps)"
proof (induction ps arbitrary: s)
  case Nil
  then show ?case by simp
next
  case (Cons q qs)
  have "scene_inv (addPlane rnd (removePlane s (identifier q)) q)"
    by (rule scene_inv_addPlane) (simp_all add: scene_inv_removePlane Cons.prems planes_removePlane)
  then show ?case by (simp add: Cons.IH)
qed

text \<open>
  C2, as stated, fails: \<open>addPlane\<close> detaches nothing. After two upserts of planes with
  the identifier \<open>p1\<close> the children are the nodes 0 and 1, and only node 1 is the entry
  of \<open>p1\<close>.
\<close>

theorem upsert_leaves_prior_renderable_counterexample:
  "map obj_id (children (addPlane (\<lambda>k. k) (addPlane (\<lambda>k. k) ARPlanes_new planeA) planeA2)) = [0, 1] \<and>
   map_option obj_id (planes (addPlane (\<lambda>k. k) ARPlanes_new planeA) ''p1'') = Some 0 \<and>
   map_option obj_id (planes (addPlane (\<lambda>k. k) (addPlane (\<lambda>k. k) ARPlanes_new planeA) planeA2) ''p1'') = Some 1"
  by (simp add: planeA_def planeA2_def addPlane_def createPlane_def
      ARPlanes_new_def Let_def Object3D_add_def)

text \<open>
  C2, amended. The node of a tracked identifier is detached by \<open>removePlane\<close>, which
  the "planes updated" handler calls before \<open>addPlane\<close>. When the children are exactly
  the nodes of the entries, they are so again after a "planes updated" batch, after a
  "planes removed" batch, and after \<open>addPlane\<close> of a plane whose identifier has no entry;
  and the node that an identifier had before is no child after \<open>removePlane\<close> of the
  identifier nor after "planes updated" for a plane with this identifier.
\<close>

theorem update_detaches_prior_renderable:
  assumes "scene_inv s"
  shows "scene_inv (planesupdated rnd s ps) \<and> scene_inv (planesremoved s ps) \<and>
     (planes s (identifier p) = None \<longrightarrow> scene_inv (addPlane rnd s p)) \<and>
     (\<forall>old. planes s (identifier p) = Some old \<longrightarrow>
        old \<notin> set (children (removePlane s (identifier p))) \<and>
        old \<notin> set (children (planesupdated rnd s [p])))"
proof -
  have "old \<notin> set (children (removePlane s (identifier p))) \<and>
        old \<notin> set (children (planesupdated rnd s [p]))"
    if old: "planes s (identifier p) = Some old" for old
  proof -
    let ?s1 = "removePlane s (identifier p)"
    have inv1: "scene_inv ?s1" using assms by (rule scene_inv_removePlane)
    from assms have "\<forall>a b c. planes s a = Some c \<and> planes s b = Some c \<longrightarrow> a = b"
      by (simp add: scene_inv_def)
    with old have "ran ((planes s)(identifier p := None)) = ran (planes s) - {old}"
      by (rule ran_delete_inj)
    then have "ran (planes ?s1) = ran (planes s) - {old}"
      by (simp add: planes_removePlane)
    with inv1 have a: "old \<notin> set (children ?s1)" by (simp add: scene_inv_def)
    have b: "old \<notin> set (children (addPlane rnd ?s1 p))"
    proof (cases "vertices p = []")
      case True
      with a show ?thesis by (simp add: addPlane_empty)
    next
      case False
      from addPlane_Some [OF False, of ?s1 rnd] obtain obj where
        "obj_id obj = next_obj ?s1" "children (addPlane rnd ?s1 p) = children ?s1 @ [obj]"
        by blast
      moreover from assms old have "obj_id old < next_obj s"
        by (auto simp add: scene_inv_def ran_def)
      moreover have "next_obj ?s1 = next_obj s"
        by (simp add: removePlane_def split: option.splits)
      ultimately show ?thesis using a by auto
    qed
    from a b show ?thesis by simp
  qed
  with assms show ?thesis
    by (simp add: scene_inv_planesupdated scene_inv_planesremoved scene_inv_addPlane)
qed

theorem update_detaches_prior_renderable_witness:
  "scene_inv (addPlane (\<lambda>k. k) ARPlanes_new planeA) \<and>
   map obj_id (children (addPlane (\<lambda>k. k) ARPlanes_new planeA)) = [0] \<and>
   scene_inv (planesupdated (\<lambda>k. k) (addPlane (\<lambda>k. k) ARPlanes_new planeA) [planeA2]) \<and>
   map obj_id (children (planesupdated (\<lambda>k. k) (addPlane (\<lambda>k. k) ARPlanes_new planeA) [planeA2])) = [1] \<and>
   map_option obj_id (planes (planesupdated (\<lambda>k. k) (addPlane (\<lambda>k. k) ARPlanes_new planeA) [planeA2]) ''p1'') = Some 1"
proof -
  have inv: "scene_inv (addPlane (\<lambda>k. k) ARPlanes_new planeA)"
    by (rule scene_inv_addPlane [OF scene_inv_new]) (simp add: ARPlanes_new_def)
  from update_detaches_prior_renderable [OF inv, of "\<lambda>k. k" "[planeA2]" planeA2] inv
  show ?thesis
    by (simp add: planeA_def planeA2_def addPlane_def createPlane_def removePlane_def
        ARPlanes_new_def Let_def Object3D_add_def)
qed

end
